theory Spec2Isabelle
  imports Complex_Main
begin

section \<open>The row slider of \<open>src/components/Scene.tsx\<close>\<close>

text \<open>
  A JavaScript number is a binary64 floating-point number, and every arithmetic
  operation of \<open>Scene.tsx\<close> rounds its exact result to the nearest one. A finite number
  is modelled as the real it stands for. A definition with the suffix \<open>64\<close> is an
  expression of the source as the engine evaluates it, with every operation that can
  round followed by the rounding \<open>fl\<close>. The same expression under the source's own name
  is its value in exact arithmetic, which is what the engine computes whenever no
  operation rounds. The sign of zero, infinities and \<open>NaN\<close> are not modelled: \<open>fl\<close> is the
  rounding of results below \<open>2 ^ 1024\<close> in magnitude, and the properties below are about
  finite offsets within that range.
\<close>

subsection \<open>JavaScript arithmetic\<close>

text \<open>
  \<open>a % b\<close> of JavaScript: the remainder takes the sign of the dividend, the quotient is
  truncated toward zero. The remainder of two binary64 numbers is a binary64 number, so
  \<open>%\<close> never rounds. Every divisor in \<open>Scene.tsx\<close> is a non-zero constant, so the
  \<open>NaN\<close> of a zero divisor never arises.
\<close>

definition js_trunc :: "real \<Rightarrow> int" where
  "js_trunc q = (if 0 \<le> q then \<lfloor>q\<rfloor> else \<lceil>q\<rceil>)"

definition js_rem :: "real \<Rightarrow> real \<Rightarrow> real" where
  "js_rem a b = a - b * of_int (js_trunc (a / b))"

text \<open>
  \<open>Math.round\<close>: the nearest integer, a half rounded toward \<open>+\<infinity>\<close>. It is computed
  exactly.
\<close>

definition Math_round :: "real \<Rightarrow> real" where
  "Math_round v = of_int \<lfloor>v + 1 / 2\<rfloor>"

subsection \<open>Rounding to binary64\<close>

text \<open>
  \<open>rne\<close> rounds a real to the nearest integer, a tie to the even one. A binary64 number
  has a significand of 53 bits: a real \<open>x\<close> with \<open>2 ^ e \<le> \<bar>x\<bar> < 2 ^ (e + 1)\<close> is rounded
  to the nearest multiple of \<open>2 ^ (e - 52)\<close>, and the subnormal numbers are the multiples
  of \<open>2 ^ (- 1074)\<close>. \<open>qexp x\<close> is the exponent of that unit and \<open>fl x\<close> the rounded value.
\<close>

definition rne :: "real \<Rightarrow> int" where
  "rne t =
     (let n = \<lfloor>t\<rfloor> in
      if t - of_int n < 1 / 2 then n
      else if 1 / 2 < t - of_int n then n + 1
      else if even n then n else n + 1)"

definition qexp :: "real \<Rightarrow> int" where
  "qexp x = max (- 1074) (\<lfloor>log 2 \<bar>x\<bar>\<rfloor> - 52)"

definition fl :: "real \<Rightarrow> real" where
  "fl x = (if x = 0 then 0 else of_int (rne (x / 2 powi qexp x)) * 2 powi qexp x)"

text \<open>\<open>Math.PI\<close>, the binary64 number nearest to \<open>\<pi>\<close>: \<open>3.141592653589793\<close>.\<close>

definition Math_PI :: real where
  "Math_PI = 884279719003555 / 2 ^ 48"

text \<open>The multiples of \<open>2 ^ j\<close>; used to say that a number has spare low-order bits.\<close>

definition grid :: "int \<Rightarrow> real set" where
  "grid j = {x. \<exists>m::int. x = of_int m * 2 powi j}"

subsection \<open>Constants (lines 54 to 57)\<close>

text \<open>The four constants are small multiples of one half: computing them rounds nothing.\<close>

definition CHARACTER_COUNT :: nat where
  "CHARACTER_COUNT = 6"

definition SPACING :: real where
  "SPACING = 3.0"

definition TOTAL_WIDTH :: real where
  "TOTAL_WIDTH = real CHARACTER_COUNT * SPACING"

definition START_X :: real where
  "START_X = - ((real CHARACTER_COUNT - 1) * SPACING) / 2"

subsection \<open>The spring of a row (lines 149 to 166)\<close>

text \<open>
  \<open>useSpring\<close> gives a row one animated value \<open>x\<close>: \<open>x_get\<close> is what \<open>x.get()\<close> reads,
  \<open>x_to\<close> the value the animation runs toward. \<open>api.start({x: v, immediate})\<close> with
  \<open>immediate\<close> set jumps to \<open>v\<close>; without it only the destination changes and the value
  is left to the animation.
\<close>

record spring =
  x_get :: real
  x_to :: real

definition api_start :: "real \<Rightarrow> bool \<Rightarrow> spring \<Rightarrow> spring" where
  "api_start v immediate s =
     (if immediate then s\<lparr>x_get := v, x_to := v\<rparr> else s\<lparr>x_to := v\<rparr>)"

text \<open>The initial spring, \<open>useSpring(() => ({ x: 0, ... }))\<close>.\<close>

definition useSpring :: spring where
  "useSpring = \<lparr>x_get = 0, x_to = 0\<rparr>"

text \<open>The snap target of line 161, from the world-space offset \<open>currentX\<close>.\<close>

definition snapTarget :: "real \<Rightarrow> real" where
  "snapTarget currentX = Math_round (currentX / SPACING) * SPACING"

definition snapTarget64 :: "real \<Rightarrow> real" where
  "snapTarget64 currentX = fl (Math_round (fl (currentX / SPACING)) * SPACING)"

text \<open>
  The handler given to \<open>useDrag\<close> (lines 155 to 164), on an event with the flag \<open>down\<close>
  and the horizontal pixel offset \<open>ox\<close>.
\<close>

definition drag_handler :: "bool \<Rightarrow> real \<Rightarrow> spring \<Rightarrow> spring" where
  "drag_handler down ox s =
     (let currentX = ox / 40 in
      if down then api_start currentX True s
      else api_start (snapTarget currentX) False s)"

definition drag_handler64 :: "bool \<Rightarrow> real \<Rightarrow> spring \<Rightarrow> spring" where
  "drag_handler64 down ox s =
     (let currentX = fl (ox / 40) in
      if down then api_start currentX True s
      else api_start (snapTarget64 currentX) False s)"



text \<open>
  Modelled from the spec: the animation of the spring library, which is not part of
  the repository. The spec says the offset eases toward the target "until convergence
  within a small tolerance, at which point offset is held exactly at target".
  \<open>settled\<close> is the spring at that point.
\<close>

definition settled :: "spring \<Rightarrow> spring" where
  "settled s = s\<lparr>x_get := x_to s\<rparr>"

subsection \<open>The frame callback (lines 168 to 189)\<close>

definition halfWidth :: real where
  "halfWidth = TOTAL_WIDTH / 2"


definition rotationY64 :: "real \<Rightarrow> real" where
  "rotationY64 currentDrag = fl (fl (fl (currentDrag / SPACING) * Math_PI) * 2)"


definition initialPos64 :: "nat \<Rightarrow> real" where
  "initialPos64 i = fl (START_X + fl (real i * SPACING))"


definition wrappedPos64 :: "real \<Rightarrow> real" where
  "wrappedPos64 currentPos =
     fl (js_rem (fl (js_rem (fl (currentPos + halfWidth)) TOTAL_WIDTH + TOTAL_WIDTH))
           TOTAL_WIDTH
         - halfWidth)"


definition slot_x64 :: "real \<Rightarrow> nat \<Rightarrow> real" where
  "slot_x64 currentDrag i = wrappedPos64 (fl (initialPos64 i + currentDrag))"

text \<open>
  A slot's group of the scene graph; a reference not yet mounted is \<open>None\<close> and
  \<open>forEach\<close> skips it (line 178).
\<close>

record group =
  position_x :: real
  rotation_y :: real

fun frame_groups :: "real \<Rightarrow> nat \<Rightarrow> group option list \<Rightarrow> group option list" where
  "frame_groups currentDrag i [] = []"
| "frame_groups currentDrag i (None # gs) = None # frame_groups currentDrag (Suc i) gs"
| "frame_groups currentDrag i (Some g # gs) =
     Some (g\<lparr>position_x := slot_x64 currentDrag i, rotation_y := rotationY64 currentDrag\<rparr>)
       # frame_groups currentDrag (Suc i) gs"

subsection \<open>The rows of the scene (lines 145 to 212, 251 to 267)\<close>

text \<open>
  The objects a row mutates live in one store shared by the whole scene: a spring, made
  by \<open>useSpring\<close>, and the array of group references, made by \<open>useRef\<close>. Both hooks are
  called in the body of \<open>DraggableRow\<close> (lines 147 and 149), and the row's closures (the
  drag handler, the frame callback) hold the addresses of what they returned. The
  source has no mutable value outside this function.
\<close>

datatype obj = SpringValue spring | GroupRefs "group option list"

record store =
  cells :: "nat \<Rightarrow> obj option"
  fresh :: nat

text \<open>
  Modelled from the spec: what a hook returns when a component instance first calls it,
  the component library not being part of the repository. By the spec "Rows and Slots
  are created once at scene construction and persist for the session": the call makes a
  new object, here at the next unused address of the store.
\<close>

definition alloc :: "obj \<Rightarrow> store \<Rightarrow> nat \<times> store" where
  "alloc v h = (fresh h, h\<lparr>cells := (cells h)(fresh h \<mapsto> v), fresh := Suc (fresh h)\<rparr>)"

record row_instance =
  groupRefs :: nat
  spring_x :: nat

text \<open>
  Mounting a row: \<open>useRef\<close>, then \<open>useSpring\<close>; the six groups are mounted at their base
  positions (line 202).
\<close>

definition DraggableRow :: "store \<Rightarrow> row_instance \<times> store" where
  "DraggableRow h =
     (let (g, h1) = alloc (GroupRefs (map (\<lambda>i. Some \<lparr>position_x = initialPos64 i, rotation_y = 0\<rparr>)
                                      [0..<CHARACTER_COUNT])) h;
          (s, h2) = alloc (SpringValue useSpring) h1
      in (\<lparr>groupRefs = g, spring_x = s\<rparr>, h2))"

datatype row_name = Heads | Torsos | Legs

text \<open>\<open>Scene\<close> mounts the three rows in the order of lines 251 to 267.\<close>

definition Scene :: "store \<Rightarrow> (row_name \<Rightarrow> row_instance) \<times> store" where
  "Scene h =
     (let (heads, h1) = DraggableRow h;
          (torsos, h2) = DraggableRow h1;
          (legs, h3) = DraggableRow h2
      in ((\<lambda>n. case n of Heads \<Rightarrow> heads | Torsos \<Rightarrow> torsos | Legs \<Rightarrow> legs), h3))"

text \<open>The drag handler of a row, as an update of the store.\<close>

definition bind_handler :: "row_instance \<Rightarrow> bool \<Rightarrow> real \<Rightarrow> store \<Rightarrow> store" where
  "bind_handler r down ox h =
     (case cells h (spring_x r) of
        Some (SpringValue s) \<Rightarrow>
          h\<lparr>cells := (cells h)(spring_x r \<mapsto> SpringValue (drag_handler64 down ox s))\<rparr>
      | _ \<Rightarrow> h)"

text \<open>The end of a row's settling animation.\<close>

definition settle :: "row_instance \<Rightarrow> store \<Rightarrow> store" where
  "settle r h =
     (case cells h (spring_x r) of
        Some (SpringValue s) \<Rightarrow> h\<lparr>cells := (cells h)(spring_x r \<mapsto> SpringValue (settled s))\<rparr>
      | _ \<Rightarrow> h)"

text \<open>
  Modelled from the spec: one frame of the settling animation of the spring library,
  which is not part of the repository ("easing offset toward target over subsequent
  frames"). The frame moves the row's own value to some \<open>v\<close>; which one is the library's
  matter.
\<close>

definition spring_frame :: "row_instance \<Rightarrow> real \<Rightarrow> store \<Rightarrow> store" where
  "spring_frame r v h =
     (case cells h (spring_x r) of
        Some (SpringValue s) \<Rightarrow>
          h\<lparr>cells := (cells h)(spring_x r \<mapsto> SpringValue (s\<lparr>x_get := v\<rparr>))\<rparr>
      | _ \<Rightarrow> h)"

text \<open>The frame callback of a row (lines 168 to 189).\<close>

definition useFrame :: "row_instance \<Rightarrow> store \<Rightarrow> store" where
  "useFrame r h =
     (case cells h (spring_x r) of
        Some (SpringValue s) \<Rightarrow>
          (case cells h (groupRefs r) of
             Some (GroupRefs gs) \<Rightarrow>
               h\<lparr>cells := (cells h)(groupRefs r \<mapsto> GroupRefs (frame_groups (x_get s) 0 gs))\<rparr>
           | _ \<Rightarrow> h)
      | _ \<Rightarrow> h)"

text \<open>The state of the scene before anything is mounted.\<close>

definition empty_store :: store where
  "empty_store = \<lparr>cells = (\<lambda>_. None), fresh = 0\<rparr>"

text \<open>What a row owns in the store: its spring and its groups.\<close>

definition row_state :: "row_instance \<Rightarrow> store \<Rightarrow> obj option \<times> obj option" where
  "row_state r h = (cells h (spring_x r), cells h (groupRefs r))"

section \<open>Properties\<close>

subsection \<open>The constants\<close>




subsection \<open>The double remainder is the floored remainder\<close>









subsection \<open>Rounding to binary64\<close>

lemma powr_powi2: "(2::real) powr (of_int k) = 2 powi k"
  by (simp add: powr_real_of_int')

lemma floor_log2_eq:
  fixes a :: real
  assumes "2 powi e \<le> a" "a < 2 powi (e + 1)"
  shows "\<lfloor>log 2 a\<rfloor> = e"
proof -
  have pos: "0 < a" using assms(1) by (smt (verit) zero_less_power_int)
  have "real_of_int e + 1 = of_int (e + 1)" by simp
  then have "(2::real) powr (of_int e + 1) = 2 powi (e + 1)" by (simp only: powr_powi2)
  then have "(2::real) powr (of_int e) \<le> a \<and> a < 2 powr (of_int e + 1)"
    using assms by (simp add: powr_powi2)
  then show ?thesis using pos by (simp add: floor_log_eq_powr_iff)
qed

text \<open>Evaluating \<open>fl\<close> at a number whose binade is known.\<close>

lemma fl_eval:
  assumes "2 powi e \<le> \<bar>x\<bar>" "\<bar>x\<bar> < 2 powi (e + 1)"
  shows "fl x = of_int (rne (x / 2 powi (max (- 1074) (e - 52)))) * 2 powi (max (- 1074) (e - 52))"
proof -
  have "x \<noteq> 0" using assms(1) by (smt (verit) zero_less_power_int abs_zero)
  moreover have "qexp x = max (- 1074) (e - 52)"
    unfolding qexp_def using floor_log2_eq[OF assms] by simp
  ultimately show ?thesis by (simp add: fl_def)
qed

lemma rne_of_int: "rne (of_int n) = n"
  by (simp add: rne_def)

lemma rne_le: "t \<le> of_int n \<Longrightarrow> rne t \<le> n"
proof -
  assume h: "t \<le> of_int n"
  have f: "\<lfloor>t\<rfloor> \<le> n" using h by (simp add: floor_le_iff)
  show ?thesis
  proof (cases "\<lfloor>t\<rfloor> = n")
    case True
    then have "t - of_int \<lfloor>t\<rfloor> \<le> 0" using h by simp
    then have "t - of_int \<lfloor>t\<rfloor> < 1 / 2" by linarith
    then show ?thesis using True by (simp add: rne_def Let_def)
  next
    case False
    then have "\<lfloor>t\<rfloor> + 1 \<le> n" using f by linarith
    then show ?thesis by (simp add: rne_def Let_def)
  qed
qed

lemma rne_ge: "of_int n \<le> t \<Longrightarrow> n \<le> rne t"
proof -
  assume h: "of_int n \<le> t"
  then have "n \<le> \<lfloor>t\<rfloor>" by (simp add: le_floor_iff)
  then show ?thesis by (simp add: rne_def Let_def)
qed

lemma rne_err: "\<bar>of_int (rne t) - t\<bar> \<le> 1 / 2"
proof -
  have "of_int \<lfloor>t\<rfloor> \<le> t" "t < of_int \<lfloor>t\<rfloor> + 1" by linarith+
  then show ?thesis by (auto simp: rne_def Let_def)
qed

lemma log2_bounds:
  fixes x :: real
  assumes "x \<noteq> 0"
  shows "2 powi \<lfloor>log 2 \<bar>x\<bar>\<rfloor> \<le> \<bar>x\<bar>" "\<bar>x\<bar> < 2 powi (\<lfloor>log 2 \<bar>x\<bar>\<rfloor> + 1)"
proof -
  have pos: "0 < \<bar>x\<bar>" using assms by simp
  have "2 powr (of_int \<lfloor>log 2 \<bar>x\<bar>\<rfloor>) \<le> \<bar>x\<bar> \<and> \<bar>x\<bar> < 2 powr (of_int \<lfloor>log 2 \<bar>x\<bar>\<rfloor> + 1)"
    using floor_log_eq_powr_iff[OF pos, of 2 "\<lfloor>log 2 \<bar>x\<bar>\<rfloor>"] by simp
  moreover have "real_of_int \<lfloor>log 2 \<bar>x\<bar>\<rfloor> + 1 = of_int (\<lfloor>log 2 \<bar>x\<bar>\<rfloor> + 1)" by simp
  ultimately show "2 powi \<lfloor>log 2 \<bar>x\<bar>\<rfloor> \<le> \<bar>x\<bar>" "\<bar>x\<bar> < 2 powi (\<lfloor>log 2 \<bar>x\<bar>\<rfloor> + 1)"
    by (simp_all only: powr_powi2)
qed

lemma powi2_less_imp: "(2::real) powi a < 2 powi b \<Longrightarrow> a < b"
proof (rule ccontr)
  assume h: "(2::real) powi a < 2 powi b" and "\<not> a < b"
  then have "b \<le> a" by simp
  then have "(2::real) powi b \<le> 2 powi a" by (rule power_int_increasing) simp
  with h show False by simp
qed

lemma qexp_min: "- 1074 \<le> qexp x"
  by (simp add: qexp_def)

lemma qexp_le:
  assumes "x \<noteq> 0" "\<bar>x\<bar> < 2 powi E" "- 1074 \<le> E - 53"
  shows "qexp x \<le> E - 53"
proof -
  have "(2::real) powi \<lfloor>log 2 \<bar>x\<bar>\<rfloor> < 2 powi E"
    using log2_bounds(1)[OF assms(1)] assms(2) by linarith
  then have "\<lfloor>log 2 \<bar>x\<bar>\<rfloor> < E" by (rule powi2_less_imp)
  then show ?thesis using assms(3) by (simp add: qexp_def)
qed

lemma qexp_ge:
  assumes "2 powi E \<le> \<bar>x\<bar>"
  shows "E - 52 \<le> qexp x"
proof -
  have "x \<noteq> 0" using assms by (smt (verit) zero_less_power_int abs_zero)
  then have "(2::real) powi E < 2 powi (\<lfloor>log 2 \<bar>x\<bar>\<rfloor> + 1)"
    using log2_bounds(2)[of x] assms by linarith
  then have "E < \<lfloor>log 2 \<bar>x\<bar>\<rfloor> + 1" by (rule powi2_less_imp)
  then show ?thesis by (simp add: qexp_def)
qed

lemma powi2_split: "k \<le> j \<Longrightarrow> (2::real) powi j = of_int (2 ^ nat (j - k)) * 2 powi k"
proof -
  assume "k \<le> j"
  then have "(2::real) powi j = 2 powi ((j - k) + k)" by simp
  also have "\<dots> = 2 powi (j - k) * 2 powi k" by (rule power_int_add) simp
  also have "(2::real) powi (j - k) = 2 ^ nat (j - k)"
    using \<open>k \<le> j\<close> by (simp add: power_int_def)
  finally show ?thesis by simp
qed

lemma gridI: "x = of_int m * 2 powi j \<Longrightarrow> x \<in> grid j"
  by (auto simp: grid_def)

lemma grid_mono: "k \<le> j \<Longrightarrow> x \<in> grid j \<Longrightarrow> x \<in> grid k"
proof -
  assume kj: "k \<le> j" and "x \<in> grid j"
  then obtain m :: int where "x = of_int m * 2 powi j" by (auto simp: grid_def)
  then have "x = of_int (m * 2 ^ nat (j - k)) * 2 powi k"
    by (simp add: powi2_split[OF kj])
  then show ?thesis by (rule gridI)
qed


lemma grid_mult_int: "x \<in> grid j \<Longrightarrow> of_int n * x \<in> grid j"
proof -
  assume "x \<in> grid j"
  then obtain m :: int where "x = of_int m * 2 powi j" by (auto simp: grid_def)
  then have "of_int n * x = of_int (n * m) * 2 powi j" by simp
  then show ?thesis by (rule gridI)
qed

lemma grid_minus: "x \<in> grid j \<Longrightarrow> - x \<in> grid j"
  using grid_mult_int[of x j "- 1"] by simp


lemma grid_of_int: "j \<le> 0 \<Longrightarrow> of_int n \<in> grid j"
proof -
  assume "j \<le> 0"
  have "(1::real) \<in> grid 0" by (rule gridI[of _ 1]) simp
  then have "(1::real) \<in> grid j" using \<open>j \<le> 0\<close> by (rule grid_mono[rotated])
  then show ?thesis using grid_mult_int[of 1 j n] by simp
qed




text \<open>A multiple of \<open>2 ^ j\<close> below \<open>2 ^ (j + 53)\<close> in magnitude is a binary64 number.\<close>

lemma fl_exact:
  assumes "x \<in> grid j" "- 1074 \<le> j" "\<bar>x\<bar> < 2 powi (j + 53)"
  shows "fl x = x"
proof (cases "x = 0")
  case True
  then show ?thesis by (simp add: fl_def)
next
  case False
  have q: "qexp x \<le> j" using qexp_le[OF False assms(3)] assms(2) by simp
  obtain n :: int where n: "x = of_int n * 2 powi qexp x"
    using grid_mono[OF q assms(1)] by (auto simp: grid_def)
  have "x / 2 powi qexp x = of_int n" by (subst n) simp
  then have "rne (x / 2 powi qexp x) = n" by (simp only: rne_of_int)
  then show ?thesis using False n by (simp add: fl_def)
qed

text \<open>Rounding does not cross a number of the grid it rounds to.\<close>

lemma fl_le:
  assumes "x \<le> B" "B \<in> grid k" "qexp x \<le> k"
  shows "fl x \<le> B"
proof (cases "x = 0")
  case True
  then show ?thesis using assms(1) by (simp add: fl_def)
next
  case False
  obtain n :: int where n: "B = of_int n * 2 powi qexp x"
    using grid_mono[OF assms(3) assms(2)] by (auto simp: grid_def)
  have p: "(0::real) < 2 powi qexp x" by simp
  have "x / 2 powi qexp x \<le> of_int n"
    using assms(1) p by (simp add: n pos_divide_le_eq)
  then have "rne (x / 2 powi qexp x) \<le> n" by (rule rne_le)
  then have "real_of_int (rne (x / 2 powi qexp x)) \<le> of_int n" by (simp only: of_int_le_iff)
  then have "real_of_int (rne (x / 2 powi qexp x)) * 2 powi qexp x \<le> of_int n * 2 powi qexp x"
    using p by (simp only: mult_le_cancel_right_pos)
  then show ?thesis using False by (simp add: fl_def n)
qed

lemma fl_ge:
  assumes "B \<le> x" "B \<in> grid k" "qexp x \<le> k"
  shows "B \<le> fl x"
proof (cases "x = 0")
  case True
  then show ?thesis using assms(1) by (simp add: fl_def)
next
  case False
  obtain n :: int where n: "B = of_int n * 2 powi qexp x"
    using grid_mono[OF assms(3) assms(2)] by (auto simp: grid_def)
  have p: "(0::real) < 2 powi qexp x" by simp
  have "of_int n \<le> x / 2 powi qexp x"
    using assms(1) p by (simp add: n pos_le_divide_eq)
  then have "n \<le> rne (x / 2 powi qexp x)" by (rule rne_ge)
  then have "real_of_int n \<le> of_int (rne (x / 2 powi qexp x))" by (simp only: of_int_le_iff)
  then have "real_of_int n * 2 powi qexp x \<le> of_int (rne (x / 2 powi qexp x)) * 2 powi qexp x"
    using p by (simp only: mult_le_cancel_right_pos)
  then show ?thesis using False by (simp add: fl_def n)
qed


lemma qexp_normal:
  assumes "2 powi (- 1022) \<le> \<bar>x\<bar>"
  shows "qexp x = \<lfloor>log 2 \<bar>x\<bar>\<rfloor> - 52"
proof -
  have x: "x \<noteq> 0" using assms by (smt (verit) zero_less_power_int abs_zero)
  define e where "e = \<lfloor>log 2 \<bar>x\<bar>\<rfloor>"
  have "(2::real) powi (- 1022) < 2 powi (e + 1)"
    using log2_bounds(2)[OF x] assms unfolding e_def by linarith
  then have "- 1022 < e + 1" by (rule powi2_less_imp)
  then have "- 1074 \<le> e - 52" by linarith
  then show ?thesis unfolding qexp_def e_def[symmetric] by (rule max_absorb2)
qed

lemma fl_rel_err:
  assumes "2 powi (- 1022) \<le> \<bar>x\<bar>"
  shows "\<bar>fl x - x\<bar> \<le> 2 powi (- 53) * \<bar>x\<bar>"
proof -
  have x: "x \<noteq> 0" using assms by (smt (verit) zero_less_power_int abs_zero)
  define q where "q = qexp x"
  have p: "(0::real) < 2 powi q" by simp
  have "fl x - x = (of_int (rne (x / 2 powi q)) - x / 2 powi q) * 2 powi q"
    using x by (simp add: fl_def q_def algebra_simps)
  then have "\<bar>fl x - x\<bar> = \<bar>of_int (rne (x / 2 powi q)) - x / 2 powi q\<bar> * 2 powi q"
    by (simp add: abs_mult)
  also have "\<dots> \<le> 1 / 2 * 2 powi q"
    using rne_err[of "x / 2 powi q"] p by (intro mult_right_mono) simp_all
  also have "1 / 2 * 2 powi q = (2::real) powi (- 53) * 2 powi (q + 52)"
  proof -
    have "(2::real) powi (q + 52) = 2 powi q * 2 powi 52"
      by (rule power_int_add) simp
    then show ?thesis by simp
  qed
  also have "\<dots> \<le> 2 powi (- 53) * \<bar>x\<bar>"
  proof -
    have "q + 52 = \<lfloor>log 2 \<bar>x\<bar>\<rfloor>" using qexp_normal[OF assms] by (simp add: q_def)
    then have "2 powi (q + 52) \<le> \<bar>x\<bar>" using log2_bounds(1)[OF x] by simp
    then show ?thesis by (intro mult_left_mono) simp_all
  qed
  finally show ?thesis .
qed

lemma fl_abs_ge:
  assumes "2 powi E \<le> \<bar>x\<bar>" "- 1074 \<le> E"
  shows "2 powi E \<le> \<bar>fl x\<bar>"
proof -
  have x: "x \<noteq> 0" using assms(1) by (smt (verit) zero_less_power_int abs_zero)
  define e where "e = \<lfloor>log 2 \<bar>x\<bar>\<rfloor>"
  have "(2::real) powi E < 2 powi (e + 1)"
    using log2_bounds(2)[OF x] assms(1) by (simp add: e_def)
  then have Ee: "E \<le> e" using powi2_less_imp[of E "e + 1"] by simp
  then have le: "(2::real) powi E \<le> 2 powi e" by (intro power_int_increasing) simp_all
  have "max (- 1074) (e - 52) \<le> e" using Ee assms(2) by linarith
  then have q: "qexp x \<le> e" unfolding qexp_def e_def .
  have g: "(2::real) powi e \<in> grid e" by (rule gridI[of _ 1]) simp
  have b: "2 powi e \<le> \<bar>x\<bar>" using log2_bounds(1)[OF x] by (simp add: e_def)
  show ?thesis
  proof (cases "0 \<le> x")
    case True
    then have "2 powi e \<le> x" using b by simp
    then have "2 powi e \<le> fl x" using g q by (rule fl_ge)
    then show ?thesis using le by linarith
  next
    case False
    then have "x \<le> - (2 powi e)" using b by simp
    moreover have "- ((2::real) powi e) \<in> grid e" using g by (rule grid_minus)
    ultimately have "fl x \<le> - (2 powi e)" using q by (rule fl_le)
    then show ?thesis using le by linarith
  qed
qed

lemma fl_double:
  assumes "2 powi (- 1022) \<le> \<bar>x\<bar>"
  shows "fl (2 * x) = 2 * fl x"
proof -
  have x: "x \<noteq> 0" using assms by (smt (verit) zero_less_power_int abs_zero)
  define e where "e = \<lfloor>log 2 \<bar>x\<bar>\<rfloor>"
  have b: "2 powi e \<le> \<bar>x\<bar>" "\<bar>x\<bar> < 2 powi (e + 1)"
    using log2_bounds[OF x] by (simp_all add: e_def)
  have p1: "(2::real) powi (e + 1) = 2 * 2 powi e"
    by (simp add: power_int_add)
  have p2: "(2::real) powi (e + 1 + 1) = 2 * 2 powi (e + 1)"
    by (simp add: power_int_add)
  have "2 powi (e + 1) \<le> \<bar>2 * x\<bar>" "\<bar>2 * x\<bar> < 2 powi (e + 1 + 1)"
    using b unfolding p2 unfolding p1 by (simp_all add: abs_mult)
  then have l: "\<lfloor>log 2 \<bar>2 * x\<bar>\<rfloor> = e + 1" by (rule floor_log2_eq)
  have n: "qexp x = e - 52" using qexp_normal[OF assms] unfolding e_def .
  have "- 1022 - 52 \<le> qexp x" using qexp_ge[OF assms] .
  then have "- 1074 \<le> e + 1 - 52" unfolding n by linarith
  then have "max (- 1074) (e + 1 - 52) = e + 1 - 52" by (rule max_absorb2)
  then have "qexp (2 * x) = e + 1 - 52" unfolding qexp_def l .
  then have q2: "qexp (2 * x) = qexp x + 1" unfolding n by linarith
  have "(2::real) powi (qexp x + 1) = 2 * 2 powi qexp x" by (simp add: power_int_add)
  then show ?thesis using x by (simp add: fl_def q2)
qed

lemma fl_fl: "fl (fl x) = fl x"
proof (cases "x = 0")
  case True
  then show ?thesis by (simp add: fl_def)
next
  case False
  define q where "q = qexp x"
  define n where "n = rne (x / 2 powi q)"
  have f: "fl x = of_int n * 2 powi q" using False by (simp add: fl_def q_def n_def)
  have p: "(0::real) < 2 powi q" by simp
  have xb: "\<bar>x\<bar> < 2 powi (q + 53)"
  proof -
    have "\<lfloor>log 2 \<bar>x\<bar>\<rfloor> + 1 \<le> q + 53" unfolding q_def qexp_def by linarith
    then have "(2::real) powi (\<lfloor>log 2 \<bar>x\<bar>\<rfloor> + 1) \<le> 2 powi (q + 53)"
      by (intro power_int_increasing) simp_all
    then show ?thesis using log2_bounds(2)[OF False] by linarith
  qed
  have s: "(2::real) powi (q + 53) = of_int (2 ^ 53) * 2 powi q"
    using powi2_split[of q "q + 53"] by simp
  have "x / 2 powi q \<le> of_int (2 ^ 53)" "of_int (- (2 ^ 53)) \<le> x / 2 powi q"
    using xb p unfolding s by (simp_all add: pos_divide_le_eq pos_le_divide_eq abs_less_iff)
  then have nb: "n \<le> 2 ^ 53" "- (2 ^ 53) \<le> n"
    unfolding n_def by (simp_all only: rne_le rne_ge)
  show ?thesis
  proof (cases "\<bar>n\<bar> = 2 ^ 53")
    case True
    then have "n = 2 ^ 53 \<or> n = - (2 ^ 53)" by linarith
    then have "real_of_int n = of_int (n div 2) * 2" by auto
    then have "fl x = of_int (n div 2) * 2 powi (q + 1)"
      unfolding f by (simp add: power_int_add)
    then have g: "fl x \<in> grid (q + 1)" by (rule gridI)
    have "\<bar>fl x\<bar> = 2 powi (q + 53)"
      unfolding f s using True by (simp add: abs_mult flip: of_int_abs)
    also have "\<dots> < 2 powi (q + 1 + 53)" by (intro power_int_strict_increasing) simp_all
    finally show ?thesis using g qexp_min[of x] by (intro fl_exact[of _ "q + 1"]) (simp_all add: q_def)
  next
    case False
    then have "\<bar>n\<bar> < 2 ^ 53" using nb by linarith
    then have "real_of_int \<bar>n\<bar> < of_int (2 ^ 53)" by (simp only: of_int_less_iff)
    then have "\<bar>fl x\<bar> < 2 powi (q + 53)"
      unfolding f s using p by (simp add: abs_mult)
    moreover have "fl x \<in> grid q" unfolding f by (rule gridI) simp
    ultimately show ?thesis using qexp_min[of x] by (intro fl_exact[of _ q]) (simp_all add: q_def)
  qed
qed

subsection \<open>The wrap expression in binary64\<close>
















subsection \<open>The six slots of a row\<close>














subsection \<open>The snap target\<close>




lemma drag_handler_down: "x_get (drag_handler True ox s) = ox / 40"
  "x_to (drag_handler True ox s) = ox / 40"
  by (simp_all add: drag_handler_def api_start_def Let_def)




subsection \<open>The rotation of a row\<close>



lemma rotationY64_eval:
  assumes "fl (d / 3) = a" "fl (a * Math_PI) = b" "fl (b * 2) = c"
  shows "rotationY64 d = c"
  using assms by (simp add: rotationY64_def SPACING_def)

lemma rotationY64_at_a: "rotationY64 (4644337115725823 / 2 ^ 47) = (18998197087967 / 2 ^ 38)"
proof -
  have a1: "fl ((4644337115725823 / 2 ^ 47) / 3) = (6192449487634431 / 2 ^ 49)"
    by (subst fl_eval[where e = "3"]) (simp_all add: rne_def Math_PI_def)
  have a2: "fl ((6192449487634431 / 2 ^ 49) * Math_PI) = (18998197087967 / 2 ^ 39)"
    by (subst fl_eval[where e = "5"]) (simp_all add: rne_def Math_PI_def)
  have a3: "fl ((18998197087967 / 2 ^ 39) * 2) = (18998197087967 / 2 ^ 38)"
    by (subst fl_eval[where e = "6"]) (simp_all add: rne_def Math_PI_def)
  show ?thesis by (rule rotationY64_eval[OF a1 a2 a3])
qed

lemma rotationY64_at_b: "rotationY64 33 = (18998197087967 / 2 ^ 38)"
proof -
  have b1: "fl (33 / 3) = 11"
    by (subst fl_eval[where e = "3"]) (simp_all add: rne_def Math_PI_def)
  have b2: "fl (11 * Math_PI) = (18998197087967 / 2 ^ 39)"
    by (subst fl_eval[where e = "5"]) (simp_all add: rne_def Math_PI_def)
  have b3: "fl ((18998197087967 / 2 ^ 39) * 2) = (18998197087967 / 2 ^ 38)"
    by (subst fl_eval[where e = "6"]) (simp_all add: rne_def Math_PI_def)
  show ?thesis by (rule rotationY64_eval[OF b1 b2 b3])
qed

lemma rotationY64_at_c: "rotationY64 (1 / 2) = (4716158501352293 / 2 ^ 52)"
proof -
  have c1: "fl ((1 / 2) / 3) = (6004799503160661 / 2 ^ 55)"
    by (subst fl_eval[where e = "-3"]) (simp_all add: rne_def Math_PI_def)
  have c2: "fl ((6004799503160661 / 2 ^ 55) * Math_PI) = (4716158501352293 / 2 ^ 53)"
    by (subst fl_eval[where e = "-1"]) (simp_all add: rne_def Math_PI_def)
  have c3: "fl ((4716158501352293 / 2 ^ 53) * 2) = (4716158501352293 / 2 ^ 52)"
    by (subst fl_eval[where e = "0"]) (simp_all add: rne_def Math_PI_def)
  show ?thesis by (rule rotationY64_eval[OF c1 c2 c3])
qed

lemma rotationY64_at_d: "rotationY64 (7 / 2) = (4126638688683257 / 2 ^ 49)"
proof -
  have d1: "fl ((7 / 2) / 3) = (5254199565265579 / 2 ^ 52)"
    by (subst fl_eval[where e = "0"]) (simp_all add: rne_def Math_PI_def)
  have d2: "fl ((5254199565265579 / 2 ^ 52) * Math_PI) = (4126638688683257 / 2 ^ 50)"
    by (subst fl_eval[where e = "1"]) (simp_all add: rne_def Math_PI_def)
  have d3: "fl ((4126638688683257 / 2 ^ 50) * 2) = (4126638688683257 / 2 ^ 49)"
    by (subst fl_eval[where e = "2"]) (simp_all add: rne_def Math_PI_def)
  show ?thesis by (rule rotationY64_eval[OF d1 d2 d3])
qed

text \<open>
  Claim C4 as stated makes the rotation a whole number of full turns exactly at the
  multiples of the spacing. In the code the rotation at the binary64 number
  32.99999999999999, which is \<open>4644337115725823 / 2 ^ 47\<close> and no multiple of 3, is the
  same number as the rotation at \<open>33 = 11 * SPACING\<close>, so no property of the rotation
  tells the two offsets apart; and that rotation is not an integer multiple of the full
  turn \<open>2 * Math.PI\<close>.
\<close>

theorem rotation64_iff_fails:
  "rotationY64 (4644337115725823 / 2 ^ 47) = rotationY64 33
   \<and> (33::real) = of_int 11 * SPACING
   \<and> \<not> (\<exists>k::int. (4644337115725823 / 2 ^ 47 :: real) = of_int k * SPACING)
   \<and> \<not> (\<exists>k::int. rotationY64 33 = of_int k * (2 * Math_PI))"
proof -
  have a: "rotationY64 (4644337115725823 / 2 ^ 47) = rotationY64 33"
    by (simp only: rotationY64_at_a rotationY64_at_b)
  have b: "(33::real) = of_int 11 * SPACING" by (simp add: SPACING_def)
  have c: "\<not> (\<exists>k::int. (4644337115725823 / 2 ^ 47 :: real) = of_int k * SPACING)"
  proof
    assume "\<exists>k::int. (4644337115725823 / 2 ^ 47 :: real) = of_int k * SPACING"
    then obtain k :: int where "(4644337115725823 / 2 ^ 47 :: real) = of_int k * 3"
      unfolding SPACING_def by auto
    then have "10 < real_of_int k \<and> real_of_int k < 11" by simp
    then have "10 < k" "k < 11" by simp_all
    then show False by linarith
  qed
  have d: "\<not> (\<exists>k::int. rotationY64 33 = of_int k * (2 * Math_PI))"
  proof
    assume "\<exists>k::int. rotationY64 33 = of_int k * (2 * Math_PI)"
    then obtain k :: int where "rotationY64 33 = of_int k * (2 * Math_PI)" by blast
    then have "(18998197087967 / 2 ^ 38 :: real) = of_int k * (2 * (884279719003555 / 2 ^ 48))"
      by (simp only: rotationY64_at_b Math_PI_def)
    then have "10 < real_of_int k \<and> real_of_int k < 11" by simp
    then have "10 < k" "k < 11" by simp_all
    then show False by linarith
  qed
  show ?thesis by (intro conjI a b c d)
qed

text \<open>
  Claim C6 as stated makes the rotations at \<open>d\<close> and \<open>d + k * SPACING\<close> differ by a whole
  number of full turns. At \<open>d = 0.5\<close> and \<open>k = 1\<close> the code gives 1.0471975511965976 and
  7.3303828583761845: their difference is not an integer multiple of \<open>2 * Math.PI\<close>, and
  the second is not the first plus \<open>2 * Math.PI\<close> as the engine adds them,
  7.330382858376184.
\<close>

theorem rotation64_shift_fails:
  "\<not> (\<exists>m::int. rotationY64 (1 / 2 + of_int 1 * SPACING) - rotationY64 (1 / 2)
          = of_int m * (2 * Math_PI))
   \<and> rotationY64 (1 / 2 + of_int 1 * SPACING) \<noteq> fl (rotationY64 (1 / 2) + 2 * Math_PI)"
proof -
  have e: "(1 / 2 + of_int 1 * SPACING :: real) = 7 / 2" by (simp add: SPACING_def)
  have s: "fl ((4716158501352293 / 2 ^ 52) + 2 * Math_PI) = (8253277377366513 / 2 ^ 50)"
    by (subst fl_eval[where e = "2"]) (simp_all add: rne_def Math_PI_def)
  have a: "\<not> (\<exists>m::int. rotationY64 (1 / 2 + of_int 1 * SPACING) - rotationY64 (1 / 2)
          = of_int m * (2 * Math_PI))"
  proof
    assume "\<exists>m::int. rotationY64 (1 / 2 + of_int 1 * SPACING) - rotationY64 (1 / 2)
          = of_int m * (2 * Math_PI)"
    then obtain m :: int where
      "rotationY64 (7 / 2) - rotationY64 (1 / 2) = of_int m * (2 * Math_PI)"
      unfolding e by blast
    then have "(4126638688683257 / 2 ^ 49 :: real) - 4716158501352293 / 2 ^ 52
        = of_int m * (2 * (884279719003555 / 2 ^ 48))"
      by (simp only: rotationY64_at_c rotationY64_at_d Math_PI_def)
    then have "1 < real_of_int m \<and> real_of_int m < 2" by simp
    then have "1 < m" "m < 2" by simp_all
    then show False by linarith
  qed
  have b: "rotationY64 (1 / 2 + of_int 1 * SPACING) \<noteq> fl (rotationY64 (1 / 2) + 2 * Math_PI)"
    unfolding e by (simp only: rotationY64_at_c rotationY64_at_d s) simp
  show ?thesis by (intro conjI a b)
qed

lemma Math_PI_bounds: "3 < Math_PI" "Math_PI < 4"
  by (simp_all add: Math_PI_def)

lemma rotationY64_multiple:
  assumes "\<bar>k\<bar> < 2 ^ 53"
  shows "rotationY64 (of_int k * SPACING) = fl (of_int k * (2 * Math_PI))"
proof (cases "k = 0")
  case True
  then show ?thesis by (simp add: rotationY64_def fl_def)
next
  case False
  have d: "of_int k * SPACING / SPACING = (of_int k :: real)" by (simp add: SPACING_def)
  have "(of_int k :: real) \<in> grid 0" by (rule grid_of_int) simp
  moreover have "\<bar>real_of_int k\<bar> < 2 powi (0 + 53)"
  proof -
    have "real_of_int \<bar>k\<bar> < of_int (2 ^ 53)" using assms by (simp only: of_int_less_iff)
    then show ?thesis by simp
  qed
  ultimately have k: "fl (of_int k) = (of_int k :: real)" by (intro fl_exact[of _ 0]) simp_all
  define x where "x = of_int k * Math_PI"
  have "1 \<le> \<bar>real_of_int k\<bar>" using False by (simp flip: of_int_abs)
  then have m: "1 * Math_PI \<le> \<bar>real_of_int k\<bar> * Math_PI"
    using Math_PI_bounds(1) by (intro mult_right_mono) simp_all
  have "\<bar>Math_PI\<bar> = Math_PI" using Math_PI_bounds(1) by simp
  then have "\<bar>x\<bar> = \<bar>real_of_int k\<bar> * Math_PI" by (simp add: x_def abs_mult)
  then have xb: "2 \<le> \<bar>x\<bar>" using m Math_PI_bounds(1) by linarith
  have lo: "(2::real) powi (- 1022) \<le> 2"
    using power_int_increasing[of "- 1022" 1 "2::real"] by simp
  have "2 powi 1 \<le> \<bar>x\<bar>" using xb by simp
  then have "2 powi 1 \<le> \<bar>fl x\<bar>" by (rule fl_abs_ge) simp
  then have "2 powi (- 1022) \<le> \<bar>fl x\<bar>" using lo by simp
  then have "fl (2 * fl x) = 2 * fl (fl x)" by (rule fl_double)
  also have "\<dots> = 2 * fl x" by (simp only: fl_fl)
  also have "\<dots> = fl (2 * x)" using fl_double[of x] xb lo by simp
  finally have "fl (fl x * 2) = fl (of_int k * (2 * Math_PI))"
    by (simp add: x_def mult.commute mult.left_commute)
  then show ?thesis by (simp add: rotationY64_def d k x_def)
qed

lemma turns_exact:
  assumes "\<bar>k\<bar> \<le> 10"
  shows "fl (of_int k * (2 * Math_PI)) = of_int k * (2 * Math_PI)"
proof -
  have "of_int k * (2 * Math_PI) = of_int (k * 884279719003555) * 2 powi (- 47)"
    by (simp add: Math_PI_def)
  then have g: "of_int k * (2 * Math_PI) \<in> grid (- 47)" by (rule gridI)
  have "\<bar>real_of_int k\<bar> \<le> 10" using assms by (simp flip: of_int_abs)
  then have "\<bar>real_of_int k\<bar> * (2 * Math_PI) \<le> 10 * (2 * Math_PI)"
    using Math_PI_bounds(1) by (intro mult_right_mono) simp_all
  then have "\<bar>of_int k * (2 * Math_PI)\<bar> < 2 powi (- 47 + 53)"
    using Math_PI_bounds by (simp add: abs_mult Math_PI_def)
  then show ?thesis using g by (intro fl_exact[of _ "- 47"]) simp_all
qed

text \<open>
  Claim C4, amended. At a drag offset that is \<open>k\<close> times the spacing, the rotation is the
  binary64 number nearest to \<open>k\<close> full turns of \<open>2 * Math.PI\<close>, for every integer \<open>k\<close> below
  \<open>2 ^ 53\<close> in magnitude, and it is exactly \<open>k\<close> full turns when \<open>\<bar>k\<bar> \<le> 10\<close>. The converse is
  left out: offsets that are no multiple of the spacing can have the same rotation.
\<close>

theorem rotation64_at_multiples:
  "(\<bar>k\<bar> < 2 ^ 53 \<longrightarrow> rotationY64 (of_int k * SPACING) = fl (of_int k * (2 * Math_PI)))
   \<and> (\<bar>k\<bar> \<le> 10 \<longrightarrow> rotationY64 (of_int k * SPACING) = of_int k * (2 * Math_PI))"
proof -
  have "rotationY64 (of_int k * SPACING) = of_int k * (2 * Math_PI)" if "\<bar>k\<bar> \<le> 10"
  proof -
    have "\<bar>k\<bar> < 2 ^ 53" using that by simp
    then show ?thesis using rotationY64_multiple[of k] turns_exact[OF that] by simp
  qed
  then show ?thesis using rotationY64_multiple[of k] by blast
qed

theorem rotation64_at_multiples_witness:
  "\<bar>3 :: int\<bar> \<le> 10 \<and> rotationY64 (of_int 3 * SPACING) = of_int 3 * (2 * Math_PI)
   \<and> \<bar>11 :: int\<bar> < 2 ^ 53 \<and> rotationY64 (of_int 11 * SPACING) = fl (of_int 11 * (2 * Math_PI))"
proof -
  have a: "\<bar>3 :: int\<bar> \<le> 10" and b: "\<bar>11 :: int\<bar> < 2 ^ 53" by simp_all
  have "rotationY64 (of_int 3 * SPACING) = of_int 3 * (2 * Math_PI)"
    by (rule rotation64_at_multiples[of 3, THEN conjunct2, THEN mp]) (rule a)
  moreover have "rotationY64 (of_int 11 * SPACING) = fl (of_int 11 * (2 * Math_PI))"
    by (rule rotation64_at_multiples[of 11, THEN conjunct1, THEN mp]) (rule b)
  ultimately show ?thesis using a b by (intro conjI)
qed

lemma rel_err_chain:
  fixes a r1 r2 r3 :: real
  assumes h1: "\<bar>r1 - a\<bar> \<le> \<bar>a\<bar> / 9007199254740992"
    and h2: "\<bar>r2 - r1 * (884279719003555 / 281474976710656)\<bar>
              \<le> \<bar>r1 * (884279719003555 / 281474976710656)\<bar> / 9007199254740992"
    and h3: "\<bar>r3 - r2 * 2\<bar> \<le> \<bar>r2 * 2\<bar> / 9007199254740992"
  shows "\<bar>r3 - a * (884279719003555 / 281474976710656) * 2\<bar>
           \<le> \<bar>a * (884279719003555 / 281474976710656) * 2\<bar> / 2251799813685248"
  using assms by linarith

lemma fl_rel_err':
  assumes "2 powi (- 1022) \<le> \<bar>x\<bar>"
  shows "\<bar>fl x - x\<bar> \<le> \<bar>x\<bar> / 9007199254740992"
  using fl_rel_err[OF assms] by simp

lemma rotationY64_err:
  assumes "d = 0 \<or> 2 powi (- 1000) \<le> \<bar>d\<bar>"
  shows "\<bar>rotationY64 d - d / SPACING * Math_PI * 2\<bar>
           \<le> 2 powi (- 51) * \<bar>d / SPACING * Math_PI * 2\<bar>"
proof (cases "d = 0")
  case True
  then show ?thesis by (simp add: rotationY64_def fl_def)
next
  case False
  then have lo: "2 powi (- 1000) \<le> \<bar>d\<bar>" using assms by simp
  define L :: real where "L = 2 powi (- 1022)"
  have Lpos: "0 < L" by (simp add: L_def)
  have "(2::real) powi (22 + (- 1022)) = 2 powi 22 * 2 powi (- 1022)"
    by (rule power_int_add) simp
  then have "(2::real) powi (- 1000) = 4194304 * L" by (simp add: L_def)
  then have dl: "4194304 * L \<le> \<bar>d\<bar>" using lo by simp
  define a where "a = d / 3"
  define r1 where "r1 = fl a"
  define r2 where "r2 = fl (r1 * (884279719003555 / 281474976710656))"
  define r3 where "r3 = fl (r2 * 2)"
  have La: "L \<le> \<bar>a\<bar>" using dl Lpos unfolding a_def by linarith
  have h1: "\<bar>r1 - a\<bar> \<le> \<bar>a\<bar> / 9007199254740992"
    unfolding r1_def using La unfolding L_def by (rule fl_rel_err')
  have Lb: "L \<le> \<bar>r1 * (884279719003555 / 281474976710656)\<bar>"
    using h1 La Lpos by linarith
  have h2: "\<bar>r2 - r1 * (884279719003555 / 281474976710656)\<bar>
              \<le> \<bar>r1 * (884279719003555 / 281474976710656)\<bar> / 9007199254740992"
    unfolding r2_def using Lb unfolding L_def by (rule fl_rel_err')
  have Lc: "L \<le> \<bar>r2 * 2\<bar>" using h2 Lb Lpos by linarith
  have h3: "\<bar>r3 - r2 * 2\<bar> \<le> \<bar>r2 * 2\<bar> / 9007199254740992"
    unfolding r3_def using Lc unfolding L_def by (rule fl_rel_err')
  have r: "rotationY64 d = r3"
    by (simp add: rotationY64_def SPACING_def Math_PI_def r3_def r2_def r1_def a_def)
  have t: "d / SPACING * Math_PI * 2 = a * (884279719003555 / 281474976710656) * 2"
    by (simp add: SPACING_def Math_PI_def a_def)
  show ?thesis unfolding r t using rel_err_chain[OF h1 h2 h3] by simp
qed

text \<open>
  Claim C6, amended. For every drag offset \<open>d\<close> and integer \<open>k\<close>, with \<open>d\<close> and
  \<open>d + k * SPACING\<close> each zero or between \<open>2 ^ (- 1000)\<close> and \<open>2 ^ 1000\<close> in magnitude, the
  rotation at \<open>d + k * SPACING\<close> is the rotation at \<open>d\<close> plus \<open>k\<close> full turns of
  \<open>2 * Math.PI\<close> up to rounding: the two differ by at most \<open>2 ^ (- 51)\<close> times the sum of
  the magnitudes of the two exact rotations \<open>(d / SPACING) * Math.PI * 2\<close>.
\<close>

theorem rotation64_shift:
  assumes "d = 0 \<or> 2 powi (- 1000) \<le> \<bar>d\<bar> \<and> \<bar>d\<bar> \<le> 2 powi 1000"
    and "d + of_int k * SPACING = 0
         \<or> 2 powi (- 1000) \<le> \<bar>d + of_int k * SPACING\<bar> \<and> \<bar>d + of_int k * SPACING\<bar> \<le> 2 powi 1000"
  shows "\<bar>rotationY64 (d + of_int k * SPACING) - (rotationY64 d + of_int k * (2 * Math_PI))\<bar>
           \<le> 2 powi (- 51) * (\<bar>(d + of_int k * SPACING) / SPACING * Math_PI * 2\<bar>
                                + \<bar>d / SPACING * Math_PI * 2\<bar>)"
proof -
  define d' where "d' = d + of_int k * SPACING"
  have e: "d' / SPACING * Math_PI * 2 = d / SPACING * Math_PI * 2 + of_int k * (2 * Math_PI)"
    by (simp add: d'_def SPACING_def field_simps)
  have a: "\<bar>rotationY64 d - d / SPACING * Math_PI * 2\<bar>
           \<le> 2 powi (- 51) * \<bar>d / SPACING * Math_PI * 2\<bar>"
    using assms(1) by (intro rotationY64_err) blast
  have b: "\<bar>rotationY64 d' - d' / SPACING * Math_PI * 2\<bar>
           \<le> 2 powi (- 51) * \<bar>d' / SPACING * Math_PI * 2\<bar>"
    using assms(2) unfolding d'_def by (intro rotationY64_err) blast
  define T where "T = d / SPACING * Math_PI * 2"
  define T' where "T' = d' / SPACING * Math_PI * 2"
  define K where "K = real_of_int k * (2 * Math_PI)"
  define R where "R = rotationY64 d"
  define R' where "R' = rotationY64 d'"
  have e': "T' = T + K" unfolding T'_def T_def K_def by (rule e)
  have a': "\<bar>R - T\<bar> \<le> \<bar>T\<bar> / 2251799813685248"
    using a unfolding R_def T_def by simp
  have b': "\<bar>R' - T'\<bar> \<le> \<bar>T'\<bar> / 2251799813685248"
    using b unfolding R'_def T'_def by simp
  have "R' - (R + K) = (R' - T') - (R - T)" unfolding e' by simp
  then have "\<bar>R' - (R + K)\<bar> \<le> \<bar>R' - T'\<bar> + \<bar>R - T\<bar>" by linarith
  then have "\<bar>R' - (R + K)\<bar> \<le> \<bar>T'\<bar> / 2251799813685248 + \<bar>T\<bar> / 2251799813685248"
    using a' b' by linarith
  then have "\<bar>R' - (R + K)\<bar> \<le> (\<bar>T'\<bar> + \<bar>T\<bar>) / 2251799813685248"
    by (simp add: add_divide_distrib)
  then have "\<bar>R' - (R + K)\<bar> \<le> 2 powi (- 51) * (\<bar>T'\<bar> + \<bar>T\<bar>)" by simp
  then show ?thesis unfolding R'_def R_def K_def T'_def T_def d'_def .
qed

theorem rotation64_shift_witness:
  "2 powi (- 1000) \<le> \<bar>1 / 2 :: real\<bar> \<and> \<bar>1 / 2 :: real\<bar> \<le> 2 powi 1000
   \<and> 2 powi (- 1000) \<le> \<bar>1 / 2 + of_int 1 * SPACING\<bar>
   \<and> \<bar>1 / 2 + of_int 1 * SPACING\<bar> \<le> 2 powi 1000
   \<and> \<bar>rotationY64 (1 / 2 + of_int 1 * SPACING) - (rotationY64 (1 / 2) + of_int 1 * (2 * Math_PI))\<bar>
           \<le> 2 powi (- 51) * (\<bar>(1 / 2 + of_int 1 * SPACING) / SPACING * Math_PI * 2\<bar>
                                + \<bar>1 / 2 / SPACING * Math_PI * 2\<bar>)"
proof -
  have l: "(2::real) powi (- 1000) \<le> 1 / 2"
    using power_int_increasing[of "- 1000" "- 1" "2::real"] by simp
  have u: "(4::real) \<le> 2 powi 1000"
    using power_int_increasing[of 2 1000 "2::real"] by simp
  have h1: "2 powi (- 1000) \<le> \<bar>1 / 2 :: real\<bar>" "\<bar>1 / 2 :: real\<bar> \<le> 2 powi 1000"
    using l u by simp_all
  have h2: "2 powi (- 1000) \<le> \<bar>1 / 2 + of_int 1 * SPACING\<bar>"
    "\<bar>1 / 2 + of_int 1 * SPACING\<bar> \<le> 2 powi 1000"
    using l u by (simp_all add: SPACING_def)
  have "\<bar>rotationY64 (1 / 2 + of_int 1 * SPACING) - (rotationY64 (1 / 2) + of_int 1 * (2 * Math_PI))\<bar>
           \<le> 2 powi (- 51) * (\<bar>(1 / 2 + of_int 1 * SPACING) / SPACING * Math_PI * 2\<bar>
                                + \<bar>1 / 2 / SPACING * Math_PI * 2\<bar>)"
    using h1 h2 by (intro rotation64_shift) blast+
  then show ?thesis using h1 h2 by (intro conjI)
qed

subsection \<open>Re-engaging a drag\<close>











subsection \<open>Independence of the rows\<close>

lemma DraggableRow_addrs:
  "fst (DraggableRow h) = \<lparr>groupRefs = fresh h, spring_x = Suc (fresh h)\<rparr>"
  "fresh (snd (DraggableRow h)) = Suc (Suc (fresh h))"
  by (simp_all add: DraggableRow_def alloc_def Let_def)

lemma Scene_addrs:
  "fst (Scene h) Heads = \<lparr>groupRefs = fresh h, spring_x = fresh h + 1\<rparr>"
  "fst (Scene h) Torsos = \<lparr>groupRefs = fresh h + 2, spring_x = fresh h + 3\<rparr>"
  "fst (Scene h) Legs = \<lparr>groupRefs = fresh h + 4, spring_x = fresh h + 5\<rparr>"
  using DraggableRow_addrs[of h] DraggableRow_addrs[of "snd (DraggableRow h)"]
    DraggableRow_addrs[of "snd (DraggableRow (snd (DraggableRow h)))"]
  by (simp_all add: Scene_def Let_def split_beta)

lemma Scene_disjoint:
  assumes "a \<noteq> b"
  shows "spring_x (fst (Scene h0) b) \<noteq> spring_x (fst (Scene h0) a)"
    "spring_x (fst (Scene h0) b) \<noteq> groupRefs (fst (Scene h0) a)"
    "groupRefs (fst (Scene h0) b) \<noteq> spring_x (fst (Scene h0) a)"
    "groupRefs (fst (Scene h0) b) \<noteq> groupRefs (fst (Scene h0) a)"
  using assms by (cases a; cases b; simp add: Scene_addrs)+

lemma bind_handler_other: "p \<noteq> spring_x r \<Longrightarrow> cells (bind_handler r down ox h) p = cells h p"
  by (simp add: bind_handler_def split: option.splits obj.splits)

lemma settle_other: "p \<noteq> spring_x r \<Longrightarrow> cells (settle r h) p = cells h p"
  by (simp add: settle_def split: option.splits obj.splits)

lemma useFrame_other: "p \<noteq> groupRefs r \<Longrightarrow> cells (useFrame r h) p = cells h p"
  by (simp add: useFrame_def split: option.splits obj.splits)

lemma spring_frame_other: "p \<noteq> spring_x r \<Longrightarrow> cells (spring_frame r v h) p = cells h p"
  by (simp add: spring_frame_def split: option.splits obj.splits)

lemma useFrame_row_state:
  assumes "row_state r h = row_state r h'"
  shows "cells (useFrame r h) (groupRefs r) = cells (useFrame r h') (groupRefs r)"
  using assms by (simp add: row_state_def useFrame_def split: option.splits obj.splits)

text \<open>
  Claim C9. The three rows are mounted by \<open>Scene\<close> into one store. In every state of the
  store, an event of one row (a drag update or release, a frame of its settling or the
  end of it, a frame callback) leaves what another row owns as it was: its spring, hence
  its drag offset, its groups, and the slot positions and rotations its next frame
  writes.
\<close>

theorem rows_independent:
  assumes "a \<noteq> b"
  shows "row_state (fst (Scene h0) b) (bind_handler (fst (Scene h0) a) down ox h)
           = row_state (fst (Scene h0) b) h
    \<and> row_state (fst (Scene h0) b) (spring_frame (fst (Scene h0) a) v h)
           = row_state (fst (Scene h0) b) h
    \<and> row_state (fst (Scene h0) b) (settle (fst (Scene h0) a) h)
           = row_state (fst (Scene h0) b) h
    \<and> row_state (fst (Scene h0) b) (useFrame (fst (Scene h0) a) h)
           = row_state (fst (Scene h0) b) h
    \<and> cells (useFrame (fst (Scene h0) b) (bind_handler (fst (Scene h0) a) down ox h))
            (groupRefs (fst (Scene h0) b))
         = cells (useFrame (fst (Scene h0) b) h) (groupRefs (fst (Scene h0) b))
    \<and> cells (useFrame (fst (Scene h0) b) (spring_frame (fst (Scene h0) a) v h))
            (groupRefs (fst (Scene h0) b))
         = cells (useFrame (fst (Scene h0) b) h) (groupRefs (fst (Scene h0) b))
    \<and> cells (useFrame (fst (Scene h0) b) (settle (fst (Scene h0) a) h))
            (groupRefs (fst (Scene h0) b))
         = cells (useFrame (fst (Scene h0) b) h) (groupRefs (fst (Scene h0) b))
    \<and> cells (useFrame (fst (Scene h0) b) (useFrame (fst (Scene h0) a) h))
            (groupRefs (fst (Scene h0) b))
         = cells (useFrame (fst (Scene h0) b) h) (groupRefs (fst (Scene h0) b))"
proof -
  note d = Scene_disjoint[OF assms, of h0]
  have 1: "row_state (fst (Scene h0) b) (bind_handler (fst (Scene h0) a) down ox h)
           = row_state (fst (Scene h0) b) h"
    unfolding row_state_def using d(1,3) by (simp add: bind_handler_other)
  have 2: "row_state (fst (Scene h0) b) (spring_frame (fst (Scene h0) a) v h)
           = row_state (fst (Scene h0) b) h"
    unfolding row_state_def using d(1,3) by (simp add: spring_frame_other)
  have 3: "row_state (fst (Scene h0) b) (settle (fst (Scene h0) a) h)
           = row_state (fst (Scene h0) b) h"
    unfolding row_state_def using d(1,3) by (simp add: settle_other)
  have 4: "row_state (fst (Scene h0) b) (useFrame (fst (Scene h0) a) h)
           = row_state (fst (Scene h0) b) h"
    unfolding row_state_def using d(2,4) by (simp add: useFrame_other)
  show ?thesis
    by (intro conjI 1 2 3 4 useFrame_row_state[OF 1] useFrame_row_state[OF 2]
        useFrame_row_state[OF 3] useFrame_row_state[OF 4])
qed

lemma Scene_springs:
  "cells (snd (Scene empty_store)) (Suc 0) = Some (SpringValue useSpring)"
  by (simp add: Scene_def DraggableRow_def alloc_def Let_def empty_store_def)

lemma fresh_empty_store: "fresh empty_store = 0"
  by (simp add: empty_store_def)

theorem rows_independent_witness:
  "Heads \<noteq> Torsos
   \<and> row_state (fst (Scene empty_store) Torsos)
        (bind_handler (fst (Scene empty_store) Heads) True 120 (snd (Scene empty_store)))
      = row_state (fst (Scene empty_store) Torsos) (snd (Scene empty_store))
   \<and> cells (bind_handler (fst (Scene empty_store) Heads) True 120 (snd (Scene empty_store)))
        (spring_x (fst (Scene empty_store) Heads))
      = Some (SpringValue \<lparr>x_get = 3, x_to = 3\<rparr>)
   \<and> cells (snd (Scene empty_store)) (spring_x (fst (Scene empty_store) Heads))
      = Some (SpringValue \<lparr>x_get = 0, x_to = 0\<rparr>)"
proof -
  have h: "Heads \<noteq> Torsos" by simp
  have f: "fl 3 = 3"
    by (subst fl_eval[where e = 1]) (simp_all add: rne_def)
  have a: "row_state (fst (Scene empty_store) Torsos)
        (bind_handler (fst (Scene empty_store) Heads) True 120 (snd (Scene empty_store)))
      = row_state (fst (Scene empty_store) Torsos) (snd (Scene empty_store))"
    by (rule rows_independent[OF h, THEN conjunct1])
  have b: "cells (bind_handler (fst (Scene empty_store) Heads) True 120 (snd (Scene empty_store)))
        (spring_x (fst (Scene empty_store) Heads))
      = Some (SpringValue \<lparr>x_get = 3, x_to = 3\<rparr>)"
    by (simp add: Scene_addrs fresh_empty_store bind_handler_def Scene_springs
        drag_handler64_def api_start_def useSpring_def f Let_def)
  have c: "cells (snd (Scene empty_store)) (spring_x (fst (Scene empty_store) Heads))
      = Some (SpringValue \<lparr>x_get = 0, x_to = 0\<rparr>)"
    by (simp add: Scene_addrs fresh_empty_store Scene_springs useSpring_def)
  show ?thesis by (intro conjI h a b c)
qed

end
